theory Spec2Isabelle
  imports Complex_Main "HOL-Library.Word" "HOL-Library.Signed_Division" "HOL-Library.Multiset"
begin

section \<open>Common types\<close>

text \<open>
  Go's \<^verbatim>\<open>time.Duration\<close> is an \<^verbatim>\<open>int64\<close> count of nanoseconds: a 64-bit word, read
  with \<^const>\<open>sint\<close>, whose addition and multiplication wrap. A Go \<^verbatim>\<open>error\<close> is
  represented by its message; \<^verbatim>\<open>nil\<close> is \<^const>\<open>None\<close> where a value may be absent.
\<close>

type_synonym Duration = "64 word"
type_synonym error = string

definition Second :: Duration where
  "Second = 1000000000"

section \<open>Broker service: connecting to RabbitMQ\<close>

text \<open>
  \<^verbatim>\<open>broker-service/cmd/api/main.go\<close>, \<^verbatim>\<open>connect\<close> (lines 86-114).

  The back-off of line 107 is
  \<^verbatim>\<open>time.Duration(math.Pow(float64(counts), 2)) * time.Second\<close>. The loop only reaches
  that line with \<^verbatim>\<open>counts\<close> between 1 and 5, where the conversion to \<^verbatim>\<open>float64\<close>, the
  square and the conversion back are exact, so the value is the integer square.
\<close>

definition backOff :: "int \<Rightarrow> Duration" where
  "backOff counts = word_of_int (counts * counts) * Second"

text \<open>
  What one call of \<^verbatim>\<open>connect\<close> does: the pair it returns (connection, error), the number
  of calls to \<^verbatim>\<open>amqp.Dial\<close>, and the arguments of its calls to \<^verbatim>\<open>time.Sleep\<close>, in order.
\<close>

record 'c connect_run =
  returned :: "'c option \<times> error option"
  dials :: nat
  slept :: "Duration list"

text \<open>
  The loop of lines 92-111. \<open>Dial n\<close> is the outcome of the \<open>n\<close>-th call of
  \<^verbatim>\<open>amqp.Dial\<close> (counted from 0): an error or a connection. \<open>counts\<close> is the local
  variable of that name, \<open>zs\<close> the sleeps so far. The loop leaves by \<^verbatim>\<open>break\<close> on a
  successful dial and by \<^verbatim>\<open>return nil, err\<close> once \<^verbatim>\<open>counts > 5\<close>.
\<close>

function connect_loop ::
  "(nat \<Rightarrow> error + 'c) \<Rightarrow> nat \<Rightarrow> int \<Rightarrow> Duration list \<Rightarrow> 'c connect_run" where
  "connect_loop Dial n counts zs =
     (case Dial n of
        Inr c \<Rightarrow> \<lparr>returned = (Some c, None), dials = Suc n, slept = zs\<rparr>
      | Inl err \<Rightarrow>
          if counts + 1 > 5
          then \<lparr>returned = (None, Some err), dials = Suc n, slept = zs\<rparr>
          else connect_loop Dial (Suc n) (counts + 1) (zs @ [backOff (counts + 1)]))"
  by pat_completeness auto
termination
  by (relation "measure (\<lambda>(Dial, n, counts, zs). nat (6 - counts))") auto

definition connect :: "(nat \<Rightarrow> error + 'c) \<Rightarrow> 'c connect_run" where
  "connect Dial = connect_loop Dial 0 0 []"

text \<open>
  \<^verbatim>\<open>main\<close> of the broker (lines 27-84), as far as the connection decides it: an error
  from \<^verbatim>\<open>connect\<close> ends the process with \<^verbatim>\<open>os.Exit(1)\<close> (lines 28-32); otherwise the
  process goes on to build its configuration and serve.
\<close>

datatype process = Exit int | Serving

definition broker_main :: "(nat \<Rightarrow> error + 'c) \<Rightarrow> process \<times> 'c connect_run" where
  "broker_main Dial =
     (let run = connect Dial
      in case snd (returned run) of
           Some err \<Rightarrow> (Exit 1, run)
         | None \<Rightarrow> (Serving, run))"

section \<open>Benchmark harness: data\<close>

text \<open>
  The benchmark program (the second source file, \<^verbatim>\<open>package main\<close> with
  \<^verbatim>\<open>benchmarkHTTP\<close>, \<^verbatim>\<open>calculateResult\<close> and \<^verbatim>\<open>printSummary\<close>).

  Go's \<^verbatim>\<open>int\<close> is modelled by \<^typ>\<open>int\<close>: every counter of the program stays between 0
  and the number of requests it was given, so no \<^verbatim>\<open>int\<close> operation of the program
  overflows. Durations are 64-bit words, because the sum of line 289 can wrap.

  A \<^verbatim>\<open>float64\<close> is a real number or one of the special values; rounding to the nearest
  representable value is not modelled. The conversion \<^verbatim>\<open>float64(n)\<close> of an integer is
  \<^const>\<open>real_of_int\<close>. The only floating-point operation of the program is the division
  of line 299, of two finite values; it follows IEEE 754 at zero: it does not panic, it
  gives an infinity or NaN.
\<close>

datatype float64 = Finite real | PosInf | NegInf | NaN

definition float64_div :: "real \<Rightarrow> real \<Rightarrow> float64" where
  "float64_div x y =
     (if y \<noteq> 0 then Finite (x / y)
      else if 0 < x then PosInf else if x < 0 then NegInf else NaN)"

text \<open>\<^verbatim>\<open>Duration.Seconds\<close> of the standard library: the duration as a number of seconds.\<close>

definition Seconds :: "Duration \<Rightarrow> real" where
  "Seconds d = real_of_int (sint d) / 1000000000"

text \<open>
  Go's \<^verbatim>\<open>/\<close> on \<^verbatim>\<open>int64\<close>: the quotient truncated towards zero, wrapped to 64 bits.
  The divisor of line 298 is a positive length, so the panic for a zero divisor does
  not arise there.
\<close>

definition int64_div :: "Duration \<Rightarrow> Duration \<Rightarrow> Duration" where
  "int64_div a b = word_of_int (sint a sdiv sint b)"

record BenchmarkResult =
  Method :: string
  TotalTime :: Duration
  Requests :: int
  Successes :: int
  Failures :: int
  AvgLatency :: Duration
  MinLatency :: Duration
  MaxLatency :: Duration
  Throughput :: float64

section \<open>Benchmark harness: one request\<close>

text \<open>
  What one iteration of a worker's loop (lines 115-147) observes. Either
  \<^verbatim>\<open>http.NewRequest\<close> returns an error, or the request is sent and \<^verbatim>\<open>client.Do\<close>
  returns a response (possibly nil) and an error (possibly nil), after which
  \<^verbatim>\<open>time.Since(reqStart)\<close> gives the latency.
\<close>

datatype response = Response (StatusCode: int)

definition StatusAccepted :: int where
  "StatusAccepted = 202"

datatype attempt =
    NewRequestError error
  | RoundTrip "response option" "error option" Duration

text \<open>
  The variables shared by the workers of one benchmark and guarded by the mutex
  (lines 101-105).
\<close>

record collector =
  latencies :: "Duration list"
  successes :: int
  failures :: int

text \<open>
  The condition of line 139,
  \<^verbatim>\<open>err != nil || resp == nil || resp.StatusCode != http.StatusAccepted\<close>, evaluated left
  to right.
\<close>

fun failed :: "response option \<Rightarrow> error option \<Rightarrow> bool" where
  "failed resp (Some err) = True"
| "failed None None = True"
| "failed (Some r) None = (StatusCode r \<noteq> StatusAccepted)"

text \<open>
  The critical section of one iteration: lines 128-130 when the request could not be
  built, lines 138-146 otherwise.
\<close>

fun tally :: "attempt \<Rightarrow> collector \<Rightarrow> collector" where
  "tally (NewRequestError err) c = c\<lparr>failures := failures c + 1\<rparr>"
| "tally (RoundTrip resp err latency) c =
     (if failed resp err
      then c\<lparr>failures := failures c + 1\<rparr>
      else c\<lparr>successes := successes c + 1, latencies := latencies c @ [latency]\<rparr>)"

section \<open>Benchmark harness: the workers\<close>

text \<open>
  \<^verbatim>\<open>concurrency\<close> goroutines each run \<^verbatim>\<open>requestsPerGoroutine\<close> iterations; an iteration
  touches the shared variables only inside its critical section, and \<^verbatim>\<open>wg.Wait()\<close>
  returns when every goroutine has finished. An execution is therefore determined by
  the order in which the critical sections are entered. That order is a parameter: a
  schedule is a list of worker numbers, each entry letting that worker enter its next
  critical section. \<open>js ! w\<close> is the loop variable \<^verbatim>\<open>j\<close> of worker \<open>w\<close>. An entry
  naming a worker that does not exist or has finished does nothing.
\<close>

fun critical_sections :: "nat \<Rightarrow> nat list \<Rightarrow> nat list \<Rightarrow> (nat \<times> nat) list" where
  "critical_sections per js [] = []"
| "critical_sections per js (w # ws) =
     (if w < length js \<and> js ! w < per
      then (w, js ! w) # critical_sections per (js[w := Suc (js ! w)]) ws
      else critical_sections per js ws)"

text \<open>
  Every goroutine runs to the end of its loop before \<^verbatim>\<open>wg.Wait()\<close> returns: whatever
  the given schedule leaves undone is run afterwards, worker by worker.
\<close>

definition run_to_completion :: "nat \<Rightarrow> nat \<Rightarrow> nat list \<Rightarrow> nat list" where
  "run_to_completion per conc sched = sched @ concat (map (replicate per) [0..<conc])"

text \<open>
  \<open>call w j\<close> is what iteration \<open>j\<close> of worker \<open>w\<close> observes. The result is the
  state of the shared variables when \<^verbatim>\<open>wg.Wait()\<close> returns (line 151).
\<close>

definition run_workers ::
  "(nat \<Rightarrow> nat \<Rightarrow> attempt) \<Rightarrow> nat \<Rightarrow> nat \<Rightarrow> nat list \<Rightarrow> collector" where
  "run_workers call per conc sched =
     foldl (\<lambda>c (w, j). tally (call w j) c)
       \<lparr>latencies = [], successes = 0, failures = 0\<rparr>
       (critical_sections per (replicate conc 0) (run_to_completion per conc sched))"

section \<open>Benchmark harness: the statistics\<close>

text \<open>
  The loop of lines 288-296 over the latencies, on the triple of \<^verbatim>\<open>sum\<close>, \<^verbatim>\<open>min\<close> and
  \<^verbatim>\<open>max\<close>; the comparisons are those of signed 64-bit integers.
\<close>

fun latency_loop ::
  "Duration list \<Rightarrow> Duration \<times> Duration \<times> Duration \<Rightarrow> Duration \<times> Duration \<times> Duration" where
  "latency_loop [] acc = acc"
| "latency_loop (lat # lats) (sm, lo, hi) =
     latency_loop lats
       (sm + lat,
        if sint lat < sint lo then lat else lo,
        if sint lat > sint hi then lat else hi)"

text \<open>
  \<^verbatim>\<open>calculateResult\<close> (lines 273-312). The early return leaves the latency fields and
  the throughput at their zero values.
\<close>

definition calculateResult ::
  "string \<Rightarrow> Duration \<Rightarrow> Duration list \<Rightarrow> int \<Rightarrow> int \<Rightarrow> int \<Rightarrow> BenchmarkResult" where
  "calculateResult method totalTime lats succ fails totalRequests =
     (case lats of
        [] \<Rightarrow>
          \<lparr>Method = method, TotalTime = totalTime, Requests = totalRequests,
           Successes = succ, Failures = fails,
           AvgLatency = 0, MinLatency = 0, MaxLatency = 0, Throughput = Finite 0\<rparr>
      | first # _ \<Rightarrow>
          (case latency_loop lats (0, first, first) of
             (sm, lo, hi) \<Rightarrow>
               \<lparr>Method = method, TotalTime = totalTime, Requests = totalRequests,
                Successes = succ, Failures = fails,
                AvgLatency = int64_div sm (word_of_nat (length lats)),
                MinLatency = lo, MaxLatency = hi,
                Throughput = float64_div (real_of_int succ) (Seconds totalTime)\<rparr>))"

section \<open>Benchmark harness: the three benchmarks\<close>

text \<open>
  \<^verbatim>\<open>benchmarkHTTP\<close> (lines 99-155), \<^verbatim>\<open>benchmarkRabbitMQ\<close> (157-213) and
  \<^verbatim>\<open>benchmarkGRPC\<close> (215-271) are the same text up to the path they post to, the
  prefix of the payload and the method name they pass on, so they share one body.

  \<^item> \<open>net url w j\<close> is what iteration \<open>j\<close> of worker \<open>w\<close> observes when posting to
    \<open>url\<close>; \<open>sched\<close> is the schedule; \<open>totalTime\<close> is the reading of
    \<^verbatim>\<open>time.Since(start)\<close> at line 152. All three are arbitrary, so a statement for every
    \<open>net\<close>, \<open>sched\<close> and \<open>totalTime\<close> covers every execution, also those in which
    what a call observes depends on the interleaving.
  \<^item> \<^verbatim>\<open>make([]time.Duration, 0, totalRequests)\<close> panics on a negative capacity, and
    \<^verbatim>\<open>totalRequests / concurrency\<close> panics on a zero divisor. (Running out of memory
    for a huge capacity is not modelled.)
  \<^item> \<^verbatim>\<open>for i := 0; i < concurrency; i++\<close> starts no goroutine when \<^verbatim>\<open>concurrency\<close> is
    negative, and a goroutine's loop does not run when \<^verbatim>\<open>requestsPerGoroutine\<close> is
    negative: both counts are cut off at 0 by \<^const>\<open>nat\<close>.
\<close>

datatype panic = MakesliceCapOutOfRange | IntegerDivideByZero

type_synonym network = "string \<Rightarrow> nat \<Rightarrow> nat \<Rightarrow> attempt"

definition benchmark ::
  "string \<Rightarrow> string \<Rightarrow> network \<Rightarrow> nat list \<Rightarrow> Duration \<Rightarrow> string \<Rightarrow> int \<Rightarrow> int
     \<Rightarrow> panic + BenchmarkResult" where
  "benchmark method path net sched totalTime brokerURL totalRequests concurrency =
     (if totalRequests < 0 then Inl MakesliceCapOutOfRange
      else if concurrency = 0 then Inl IntegerDivideByZero
      else
        let requestsPerGoroutine = totalRequests sdiv concurrency;
            c = run_workers (net (brokerURL @ path))
                  (nat requestsPerGoroutine) (nat concurrency) sched
        in Inr (calculateResult method totalTime
                  (latencies c) (successes c) (failures c) totalRequests))"

definition benchmarkHTTP ::
  "network \<Rightarrow> nat list \<Rightarrow> Duration \<Rightarrow> string \<Rightarrow> int \<Rightarrow> int \<Rightarrow> panic + BenchmarkResult" where
  "benchmarkHTTP = benchmark ''HTTP'' ''/log-http''"

definition benchmarkRabbitMQ ::
  "network \<Rightarrow> nat list \<Rightarrow> Duration \<Rightarrow> string \<Rightarrow> int \<Rightarrow> int \<Rightarrow> panic + BenchmarkResult" where
  "benchmarkRabbitMQ = benchmark ''RabbitMQ'' ''/log-rabbit''"

definition benchmarkGRPC ::
  "network \<Rightarrow> nat list \<Rightarrow> Duration \<Rightarrow> string \<Rightarrow> int \<Rightarrow> int \<Rightarrow> panic + BenchmarkResult" where
  "benchmarkGRPC = benchmark ''gRPC'' ''/log-grpc''"

section \<open>Benchmark harness: the report\<close>

text \<open>
  The output is kept as the list of calls to \<^verbatim>\<open>fmt.Printf\<close>: the format string and the
  operands. \<open>DurationStringArg d\<close> is the string \<^verbatim>\<open>d.String()\<close> of line 331.
\<close>

datatype operand =
    StrArg string
  | IntArg int
  | DurationArg Duration
  | DurationStringArg Duration
  | FloatArg float64

type_synonym printf = "string \<times> operand list"

text \<open>\<^verbatim>\<open>printResult\<close> (lines 314-325).\<close>

definition printResult :: "BenchmarkResult \<Rightarrow> printf list" where
  "printResult result =
     [(''Total Time:     %v\<newline>'', [DurationArg (TotalTime result)]),
      (''Requests:       %d\<newline>'', [IntArg (Requests result)]),
      (''Successes:      %d\<newline>'', [IntArg (Successes result)]),
      (''Failures:       %d\<newline>'', [IntArg (Failures result)])]
     @ (if Successes result > 0
        then [(''Avg Latency:    %v\<newline>'', [DurationArg (AvgLatency result)]),
              (''Min Latency:    %v\<newline>'', [DurationArg (MinLatency result)]),
              (''Max Latency:    %v\<newline>'', [DurationArg (MaxLatency result)]),
              (''Throughput:     %.2f req/s\<newline>'', [FloatArg (Throughput result)])]
        else [])"

text \<open>\<^verbatim>\<open>printSummary\<close> (lines 327-343).\<close>

definition printSummary :: "BenchmarkResult \<Rightarrow> printf list" where
  "printSummary result =
     (if Successes result > 0
      then [(''%-15s %12s %10.2f %11d %11d\<newline>'',
             [StrArg (Method result), DurationStringArg (AvgLatency result),
              FloatArg (Throughput result), IntArg (Successes result), IntArg (Failures result)])]
      else [(''%-15s %12s %10s %11d %11d\<newline>'',
             [StrArg (Method result), StrArg ''N/A'', StrArg ''N/A'',
              IntArg (Successes result), IntArg (Failures result)])])"

section \<open>Benchmark harness: the command line\<close>

text \<open>
  Lines 36-49 of \<^verbatim>\<open>main\<close>. \<open>Args\<close> is \<^verbatim>\<open>os.Args\<close>, the program name first.
  \<open>Sscanf_d s\<close> is the integer that \<^verbatim>\<open>fmt.Sscanf(s, "%d", &x)\<close> of the standard library
  stores, or \<^const>\<open>None\<close> when it stores nothing; \<^verbatim>\<open>main\<close> ignores the error it returns,
  so the variable then keeps its initial value.
\<close>

record main_arguments =
  main_brokerURL :: string
  main_requests :: int
  main_concurrency :: int

definition main_args :: "(string \<Rightarrow> int option) \<Rightarrow> string list \<Rightarrow> main_arguments" where
  "main_args Sscanf_d Args =
     \<lparr>main_brokerURL = (if length Args > 1 then Args ! 1 else ''http://broker-service''),
      main_requests =
        (if length Args > 2
         then (case Sscanf_d (Args ! 2) of Some n \<Rightarrow> n | None \<Rightarrow> 100)
         else 100),
      main_concurrency =
        (if length Args > 3
         then (case Sscanf_d (Args ! 3) of Some n \<Rightarrow> n | None \<Rightarrow> 10)
         else 10)\<rparr>"

section \<open>Auxiliary notions\<close>

text \<open>The loop variables of the workers after a schedule has been run.\<close>

fun progress_after :: "nat \<Rightarrow> nat list \<Rightarrow> nat list \<Rightarrow> nat list" where
  "progress_after per js [] = js"
| "progress_after per js (w # ws) =
     (if w < length js \<and> js ! w < per
      then progress_after per (js[w := Suc (js ! w)]) ws
      else progress_after per js ws)"

text \<open>The latency sample that \<^const>\<open>tally\<close> appends for an attempt, if it appends one.\<close>

fun sample :: "attempt \<Rightarrow> Duration option" where
  "sample (NewRequestError err) = None"
| "sample (RoundTrip resp err latency) = (if failed resp err then None else Some latency)"

text \<open>
  Of the iterations listed in \<open>order\<close>: the samples they contribute, in that order, and
  the iterations that contribute none.
\<close>

definition samples :: "(nat \<Rightarrow> nat \<Rightarrow> attempt) \<Rightarrow> (nat \<times> nat) list \<Rightarrow> Duration list" where
  "samples call order = List.map_filter (\<lambda>(w, j). sample (call w j)) order"

definition rejected :: "(nat \<Rightarrow> nat \<Rightarrow> attempt) \<Rightarrow> (nat \<times> nat) list \<Rightarrow> (nat \<times> nat) list" where
  "rejected call order = filter (\<lambda>(w, j). sample (call w j) = None) order"

text \<open>Every iteration of every worker, and the latencies of those that succeed.\<close>

definition all_calls :: "nat \<Rightarrow> nat \<Rightarrow> (nat \<times> nat) list" where
  "all_calls conc per = List.product [0..<conc] [0..<per]"


section \<open>Properties of connect\<close>

text \<open>
  From a state in which \<open>n\<close> dials have failed, when the dials up to \<open>k\<close> fail and
  dial \<open>k\<close> succeeds, the loop returns that connection after sleeping
  \<open>backOff (n + 1)\<close>, ..., \<open>backOff k\<close>.
\<close>

lemma connect_loop_succeeds:
  assumes "n \<le> k" "k \<le> 5" "\<forall>i. n \<le> i \<and> i < k \<longrightarrow> isl (Dial i)" "Dial k = Inr c"
  shows "connect_loop Dial n (int n) zs =
           \<lparr>returned = (Some c, None), dials = Suc k,
            slept = zs @ map (\<lambda>m. backOff (int m)) [Suc n..<Suc k]\<rparr>"
  using assms
proof (induction "k - n" arbitrary: n zs)
  case 0
  then have "n = k" by simp
  with 0 show ?case by simp
next
  case (Suc d)
  then have lt: "n < k" by simp
  with Suc.prems obtain err where err: "Dial n = Inl err"
    by (metis isl_def le_refl)
  have step: "connect_loop Dial n (int n) zs =
      connect_loop Dial (Suc n) (int (Suc n)) (zs @ [backOff (int (Suc n))])"
    using err lt Suc.prems(2) by (simp add: add.commute)
  have "connect_loop Dial (Suc n) (int (Suc n)) (zs @ [backOff (int (Suc n))]) =
      \<lparr>returned = (Some c, None), dials = Suc k,
       slept = (zs @ [backOff (int (Suc n))]) @ map (\<lambda>m. backOff (int m)) [Suc (Suc n)..<Suc k]\<rparr>"
    using Suc.hyps(2) Suc.prems lt by (intro Suc.hyps(1)) auto
  moreover have "[Suc n..<Suc k] = Suc n # [Suc (Suc n)..<Suc k]"
    using lt by (simp add: upt_conv_Cons)
  ultimately show ?case using step by simp
qed

text \<open>The same when the sixth dial fails too: the loop returns its error.\<close>

lemma connect_loop_gives_up:
  assumes "n \<le> 5" "\<forall>i. n \<le> i \<and> i < 5 \<longrightarrow> isl (Dial i)" "Dial 5 = Inl err"
  shows "connect_loop Dial n (int n) zs =
           \<lparr>returned = (None, Some err), dials = 6,
            slept = zs @ map (\<lambda>m. backOff (int m)) [Suc n..<6]\<rparr>"
  using assms
proof (induction "5 - n" arbitrary: n zs)
  case 0
  then have "n = 5" by simp
  with 0 show ?case by simp
next
  case (Suc d)
  then have lt: "n < 5" by simp
  with Suc.prems obtain e where e: "Dial n = Inl e"
    by (metis isl_def le_refl)
  have step: "connect_loop Dial n (int n) zs =
      connect_loop Dial (Suc n) (int (Suc n)) (zs @ [backOff (int (Suc n))])"
    using e lt by (simp add: add.commute)
  have "connect_loop Dial (Suc n) (int (Suc n)) (zs @ [backOff (int (Suc n))]) =
      \<lparr>returned = (None, Some err), dials = 6,
       slept = (zs @ [backOff (int (Suc n))]) @ map (\<lambda>m. backOff (int m)) [Suc (Suc n)..<6]\<rparr>"
    using Suc.hyps(2) Suc.prems lt by (intro Suc.hyps(1)) auto
  moreover have "[Suc n..<6] = Suc n # [Suc (Suc n)..<6]"
    using lt by (simp add: upt_conv_Cons)
  ultimately show ?case using step by simp
qed

text \<open>
  C1, as the code has it. When the dials before number \<open>k\<close> fail and dial \<open>k\<close>
  succeeds (\<open>k\<close> at most 5), \<^verbatim>\<open>connect\<close> returns that connection after \<open>k + 1\<close> dials,
  and the delays it slept are the first \<open>k\<close> of 1, 4, 9, 16, 25 seconds: after the
  \<open>n\<close>-th failed dial it sleeps \<open>n\<^sup>2\<close> seconds, so the first retry waits one second.
\<close>

theorem connect_backoff_sequence:
  assumes "k \<le> 5" "\<forall>i<k. isl (Dial i)" "Dial k = Inr c"
  shows "slept (connect Dial) =
           take k [1 * Second, 4 * Second, 9 * Second, 16 * Second, 25 * Second]
       \<and> returned (connect Dial) = (Some c, None)
       \<and> dials (connect Dial) = Suc k"
proof -
  have run: "connect Dial = \<lparr>returned = (Some c, None), dials = Suc k,
            slept = [] @ map (\<lambda>m. backOff (int m)) [Suc 0..<Suc k]\<rparr>"
    unfolding connect_def using connect_loop_succeeds [of 0 k Dial c "[]"] assms by simp
  from assms(1) consider "k = 0" | "k = 1" | "k = 2" | "k = 3" | "k = 4" | "k = 5"
    by linarith
  then have "map (\<lambda>m. backOff (int m)) [Suc 0..<Suc k] =
      take k [1 * Second, 4 * Second, 9 * Second, 16 * Second, 25 * Second]"
    by cases (simp_all add: backOff_def upt_conv_Cons)
  with run show ?thesis by simp
qed

theorem connect_backoff_sequence_witness:
  "(3::nat) \<le> 5
   \<and> slept (connect (\<lambda>i. if i < 3 then Inl ''dial tcp: connection refused'' else Inr (1::nat)))
       = [1000000000, 4000000000, 9000000000]
   \<and> dials (connect (\<lambda>i. if i < 3 then Inl ''dial tcp: connection refused'' else Inr (1::nat)))
       = 4"
  using connect_backoff_sequence
    [of 3 "\<lambda>i. if i < 3 then Inl ''dial tcp: connection refused'' else Inr (1::nat)" 1]
  by (simp add: Second_def)

text \<open>
  C1 as the specification words it fails: with one failed dial followed by a successful
  one, the only delay is one second, while the first element of 0, 1, 4, 9, 16, 25 is 0.
\<close>

theorem connect_first_retry_counterexample:
  "slept (connect (\<lambda>i. if i = 0 then Inl ''dial tcp: connection refused'' else Inr (1::nat)))
     = [1 * Second]
   \<and> slept (connect (\<lambda>i. if i = 0 then Inl ''dial tcp: connection refused'' else Inr (1::nat)))
     \<noteq> take 1 [0 * Second, 1 * Second, 4 * Second, 9 * Second, 16 * Second, 25 * Second]"
  by (simp add: connect_def backOff_def Second_def)

text \<open>
  C2. When the first six dials all fail, \<^verbatim>\<open>connect\<close> dials exactly six times and returns
  a nil connection with the (non-nil) error of the sixth dial; \<^verbatim>\<open>main\<close> then exits with
  status 1 and does not serve. \<^verbatim>\<open>connect\<close> is a total function here (its termination is
  proved above), so it returns on every sequence of dial outcomes.
\<close>

theorem connect_gives_up_after_six_dials:
  assumes "\<forall>i<6. isl (Dial i)"
  shows "dials (connect Dial) = 6
       \<and> (\<exists>err. Dial 5 = Inl err \<and> returned (connect Dial) = (None, Some err))
       \<and> fst (broker_main Dial) = Exit 1"
proof -
  from assms have "isl (Dial 5)" by simp
  then obtain err where err: "Dial 5 = Inl err"
    by (auto simp: isl_def)
  have "connect Dial = \<lparr>returned = (None, Some err), dials = 6,
            slept = [] @ map (\<lambda>m. backOff (int m)) [Suc 0..<6]\<rparr>"
    unfolding connect_def using connect_loop_gives_up [of 0 Dial err "[]"] assms err by simp
  with err show ?thesis by (simp add: broker_main_def)
qed

theorem connect_gives_up_after_six_dials_witness:
  "dials (connect (\<lambda>i. Inl ''dial tcp: connection refused'' :: error + nat)) = 6
   \<and> returned (connect (\<lambda>i. Inl ''dial tcp: connection refused'' :: error + nat))
       = (None, Some ''dial tcp: connection refused'')
   \<and> fst (broker_main (\<lambda>i. Inl ''dial tcp: connection refused'' :: error + nat)) = Exit 1"
  using connect_gives_up_after_six_dials
    [of "\<lambda>i. Inl ''dial tcp: connection refused'' :: error + nat"]
  by simp

section \<open>The order of the critical sections\<close>

text \<open>
  The loop variables only grow, never beyond the number of iterations, and a schedule
  can be run in two parts.
\<close>

lemma length_progress_after [simp]: "length (progress_after per js ws) = length js"
  by (induction ws arbitrary: js) auto

lemma progress_after_mono: "js ! v \<le> progress_after per js ws ! v"
proof (induction ws arbitrary: js)
  case Nil
  show ?case by simp
next
  case (Cons w ws)
  show ?case
  proof (cases "w < length js \<and> js ! w < per")
    case True
    have "js ! v \<le> js[w := Suc (js ! w)] ! v"
      using True by (cases "v = w") auto
    also have "\<dots> \<le> progress_after per (js[w := Suc (js ! w)]) ws ! v"
      by (rule Cons.IH)
    finally show ?thesis using True by simp
  next
    case False
    then show ?thesis using Cons.IH [of js] by auto
  qed
qed

lemma progress_after_bounded:
  "\<forall>v<length js. js ! v \<le> per \<Longrightarrow> v < length js \<Longrightarrow> progress_after per js ws ! v \<le> per"
proof (induction ws arbitrary: js)
  case Nil
  then show ?case by simp
next
  case (Cons w ws)
  show ?case
  proof (cases "w < length js \<and> js ! w < per")
    case True
    have "\<forall>u<length (js[w := Suc (js ! w)]). js[w := Suc (js ! w)] ! u \<le> per"
      using True Cons.prems(1) by (auto simp: nth_list_update)
    then have "progress_after per (js[w := Suc (js ! w)]) ws ! v \<le> per"
      using Cons.prems(2) by (intro Cons.IH) auto
    then show ?thesis using True by simp
  next
    case False
    then show ?thesis using Cons.IH [of js] Cons.prems by auto
  qed
qed

lemma progress_after_append:
  "progress_after per js (xs @ ys) = progress_after per (progress_after per js xs) ys"
  by (induction xs arbitrary: js) auto

lemma critical_sections_append:
  "critical_sections per js (xs @ ys) =
     critical_sections per js xs @ critical_sections per (progress_after per js xs) ys"
  by (induction xs arbitrary: js) auto

text \<open>
  The critical sections entered under a schedule are the iterations between the loop
  variables before and after it, each entered once.
\<close>

lemma set_critical_sections:
  "set (critical_sections per js ws) =
     {(w, j). w < length js \<and> js ! w \<le> j \<and> j < progress_after per js ws ! w}"
proof (induction ws arbitrary: js)
  case Nil
  show ?case by auto
next
  case (Cons w ws)
  show ?case
  proof (cases "w < length js \<and> js ! w < per")
    case True
    let ?js = "js[w := Suc (js ! w)]"
    have mono: "Suc (js ! w) \<le> progress_after per ?js ws ! w"
      using progress_after_mono [of ?js w per ws] True by simp
    have "set (critical_sections per js (w # ws)) =
        insert (w, js ! w) {(v, j). v < length ?js \<and> ?js ! v \<le> j \<and> j < progress_after per ?js ws ! v}"
      using True Cons.IH [of ?js] by simp
    also have "\<dots> = {(v, j). v < length js \<and> js ! v \<le> j \<and> j < progress_after per ?js ws ! v}"
    proof (rule set_eqI, clarify)
      fix v j
      show "(v, j) \<in> insert (w, js ! w) {(v, j). v < length ?js \<and> ?js ! v \<le> j \<and> j < progress_after per ?js ws ! v}
         \<longleftrightarrow> (v, j) \<in> {(v, j). v < length js \<and> js ! v \<le> j \<and> j < progress_after per ?js ws ! v}"
        using True mono by (cases "v = w") (auto simp: nth_list_update)
    qed
    finally show ?thesis using True by simp
  next
    case False
    then show ?thesis using Cons.IH [of js] by auto
  qed
qed

lemma distinct_critical_sections: "distinct (critical_sections per js ws)"
proof (induction ws arbitrary: js)
  case Nil
  show ?case by simp
next
  case (Cons w ws)
  show ?case
  proof (cases "w < length js \<and> js ! w < per")
    case True
    have "(w, js ! w) \<notin> set (critical_sections per (js[w := Suc (js ! w)]) ws)"
      using True by (simp add: set_critical_sections)
    then show ?thesis using True Cons.IH by simp
  next
    case False
    then show ?thesis using Cons.IH [of js] by auto
  qed
qed

text \<open>
  Running the workers one after the other finishes all of them, so when the workers
  are joined every iteration of every worker has been through its critical section
  exactly once, whatever the schedule was.
\<close>

lemma progress_after_replicate:
  "w < length js \<Longrightarrow> js ! w \<le> per \<Longrightarrow>
     progress_after per js (replicate n w) ! w = min per (js ! w + n)"
  by (induction n arbitrary: js) auto

lemma progress_after_sequential:
  assumes "\<forall>v<length js. js ! v \<le> per" "w \<in> set vs" "w < length js"
  shows "progress_after per js (concat (map (replicate per) vs)) ! w = per"
  using assms
proof (induction vs arbitrary: js)
  case Nil
  then show ?case by simp
next
  case (Cons v vs)
  let ?js = "progress_after per js (replicate per v)"
  have bounded: "\<forall>u<length ?js. ?js ! u \<le> per"
    using Cons.prems(1) by (simp add: progress_after_bounded)
  have split: "progress_after per js (concat (map (replicate per) (v # vs))) =
      progress_after per ?js (concat (map (replicate per) vs))"
    by (simp add: progress_after_append)
  show ?case
  proof (cases "w \<in> set vs")
    case True
    then show ?thesis using split Cons.IH [of ?js] bounded Cons.prems(3) by simp
  next
    case False
    then have "w = v" using Cons.prems(2) by simp
    then have "?js ! w = per"
      using progress_after_replicate [of w js per per] Cons.prems by simp
    moreover have "?js ! w \<le> progress_after per ?js (concat (map (replicate per) vs)) ! w"
      by (rule progress_after_mono)
    moreover have "progress_after per ?js (concat (map (replicate per) vs)) ! w \<le> per"
      using bounded Cons.prems(3) by (intro progress_after_bounded) auto
    ultimately show ?thesis using split by simp
  qed
qed

lemma progress_after_run_to_completion:
  "progress_after per (replicate conc 0) (run_to_completion per conc sched) = replicate conc per"
proof (rule nth_equalityI)
  show "length (progress_after per (replicate conc 0) (run_to_completion per conc sched)) =
      length (replicate conc per)"
    by simp
next
  fix w
  assume "w < length (progress_after per (replicate conc 0) (run_to_completion per conc sched))"
  then have w: "w < conc" by simp
  let ?js = "progress_after per (replicate conc 0) sched"
  have "\<forall>u<length ?js. ?js ! u \<le> per"
    by (simp add: progress_after_bounded)
  then have "progress_after per ?js (concat (map (replicate per) [0..<conc])) ! w = per"
    using w by (intro progress_after_sequential) auto
  then show "progress_after per (replicate conc 0) (run_to_completion per conc sched) ! w =
      replicate conc per ! w"
    using w by (simp add: run_to_completion_def progress_after_append)
qed

lemma set_critical_sections_complete:
  "set (critical_sections per (replicate conc 0) (run_to_completion per conc sched)) =
     {..<conc} \<times> {..<per}"
  by (auto simp: set_critical_sections progress_after_run_to_completion)

lemma mset_critical_sections_complete:
  "mset (critical_sections per (replicate conc 0) (run_to_completion per conc sched)) =
     mset (List.product [0..<conc] [0..<per])"
proof -
  have "distinct (List.product [0..<conc] [0..<per])"
    by (simp add: distinct_product)
  moreover have "set (List.product [0..<conc] [0..<per]) = {..<conc} \<times> {..<per}"
    by auto
  ultimately show ?thesis
    using distinct_critical_sections set_critical_sections_complete
    by (metis set_eq_iff_mset_eq_distinct)
qed


lemma critical_sections_no_iterations [simp]: "critical_sections 0 js ws = []"
  by (induction ws arbitrary: js) auto

section \<open>What the workers collect\<close>

text \<open>
  An attempt contributes a sample exactly when it is a response with status 202 and no
  error; otherwise it is counted as a failure.
\<close>

lemma tally_sample:
  "tally a c = (case sample a of
                  None \<Rightarrow> c\<lparr>failures := failures c + 1\<rparr>
                | Some l \<Rightarrow> c\<lparr>successes := successes c + 1, latencies := latencies c @ [l]\<rparr>)"
  by (cases a) auto

lemma sample_Some_iff:
  "sample a = Some l \<longleftrightarrow> a = RoundTrip (Some (Response StatusAccepted)) None l"
proof (cases a)
  case (NewRequestError e)
  then show ?thesis by simp
next
  case (RoundTrip resp err lat)
  then show ?thesis
  proof (cases "(resp, err)" rule: failed.cases)
    case (3 r)
    with RoundTrip show ?thesis by (cases r) auto
  qed auto
qed

lemma sample_None_iff:
  "sample a = None \<longleftrightarrow> (\<forall>l. a \<noteq> RoundTrip (Some (Response 202)) None l)"
proof -
  have "sample a = None \<longleftrightarrow> (\<forall>l. sample a \<noteq> Some l)" by auto
  then show ?thesis by (simp add: sample_Some_iff StatusAccepted_def)
qed

lemma tally_rejects:
  assumes "\<forall>l. a \<noteq> RoundTrip (Some (Response 202)) None l"
  shows "tally a c = c\<lparr>failures := failures c + 1\<rparr>"
proof -
  from assms have "sample a = None" by (simp add: sample_None_iff)
  then show ?thesis by (simp add: tally_sample)
qed

lemma samples_Nil [simp]: "samples call [] = []"
  by (simp add: samples_def map_filter_simps)

lemma samples_Cons:
  "samples call ((w, j) # order) =
     (case sample (call w j) of None \<Rightarrow> samples call order | Some l \<Rightarrow> l # samples call order)"
  by (cases "sample (call w j)") (simp_all add: samples_def map_filter_simps)

lemma foldl_tally:
  "foldl (\<lambda>c (w, j). tally (call w j) c) c order =
     \<lparr>latencies = latencies c @ samples call order,
      successes = successes c + int (length (samples call order)),
      failures = failures c + int (length (rejected call order))\<rparr>"
proof (induction order arbitrary: c)
  case Nil
  show ?case by (simp add: rejected_def)
next
  case (Cons x order)
  obtain w j where x: "x = (w, j)" by (cases x)
  show ?case
  proof (cases "sample (call w j)")
    case None
    then have "tally (call w j) c = c\<lparr>failures := failures c + 1\<rparr>"
      by (simp add: tally_sample)
    then show ?thesis
      using None by (simp add: x Cons.IH samples_Cons rejected_def)
  next
    case (Some l)
    then have "tally (call w j) c =
        c\<lparr>successes := successes c + 1, latencies := latencies c @ [l]\<rparr>"
      by (simp add: tally_sample)
    then show ?thesis
      using Some by (simp add: x Cons.IH samples_Cons rejected_def)
  qed
qed


lemma length_samples_filter:
  "length (samples call order) = length (filter (\<lambda>(w, j). sample (call w j) \<noteq> None) order)"
  by (simp add: samples_def List.map_filter_def split_def)




text \<open>
  The samples and the failures depend on the order of the critical sections only up
  to a permutation.
\<close>

lemma mset_samples_cong:
  assumes "mset xs = mset ys"
  shows "mset (samples call xs) = mset (samples call ys)"
proof -
  have "mset (samples call zs) =
      image_mset (the \<circ> (\<lambda>(w, j). sample (call w j)))
        (filter_mset (\<lambda>x. (\<lambda>(w, j). sample (call w j)) x \<noteq> None) (mset zs))" for zs
    by (simp add: samples_def List.map_filter_def)
  then show ?thesis using assms by simp
qed

lemma mset_rejected_cong:
  "mset xs = mset ys \<Longrightarrow> mset (rejected call xs) = mset (rejected call ys)"
  by (simp add: rejected_def)


lemma run_workers_eq:
  "run_workers call per conc sched =
     \<lparr>latencies = samples call (critical_sections per (replicate conc 0) (run_to_completion per conc sched)),
      successes = int (length (samples call (critical_sections per (replicate conc 0) (run_to_completion per conc sched)))),
      failures = int (length (rejected call (critical_sections per (replicate conc 0) (run_to_completion per conc sched))))\<rparr>"
  by (simp add: run_workers_def foldl_tally)

lemma run_workers_latencies:
  "mset (latencies (run_workers call per conc sched)) = mset (samples call (all_calls conc per))"
  unfolding run_workers_eq all_calls_def
  using mset_samples_cong [OF mset_critical_sections_complete] by simp

lemma run_workers_successes:
  "successes (run_workers call per conc sched) = int (length (latencies (run_workers call per conc sched)))"
  by (simp add: run_workers_eq)

lemma run_workers_successes_count:
  "successes (run_workers call per conc sched) = int (length (samples call (all_calls conc per)))"
  using run_workers_latencies [of call per conc sched] run_workers_successes [of call per conc sched]
  by (metis size_mset)

lemma run_workers_failures_count:
  "failures (run_workers call per conc sched) = int (length (rejected call (all_calls conc per)))"
proof -
  have "mset (rejected call (critical_sections per (replicate conc 0) (run_to_completion per conc sched)))
      = mset (rejected call (all_calls conc per))"
    unfolding all_calls_def by (rule mset_rejected_cong [OF mset_critical_sections_complete])
  then have "length (rejected call (critical_sections per (replicate conc 0) (run_to_completion per conc sched)))
      = length (rejected call (all_calls conc per))"
    by (metis size_mset)
  then show ?thesis by (simp add: run_workers_eq)
qed


section \<open>The statistics of calculateResult\<close>

lemma latency_loop_sum:
  "fst (latency_loop lats (sm, lo, hi)) = sm + sum_list lats"
  by (induction lats arbitrary: sm lo hi) (simp_all add: add.assoc)

lemma latency_loop_min:
  "fst (snd (latency_loop lats (sm, lo, hi))) \<in> insert lo (set lats)
   \<and> (\<forall>l \<in> insert lo (set lats). sint (fst (snd (latency_loop lats (sm, lo, hi)))) \<le> sint l)"
proof (induction lats arbitrary: sm lo hi)
  case Nil
  show ?case by simp
next
  case (Cons lat lats)
  let ?lo = "if sint lat < sint lo then lat else lo"
  let ?hi = "if sint lat > sint hi then lat else hi"
  have IH: "fst (snd (latency_loop lats (sm + lat, ?lo, ?hi))) \<in> insert ?lo (set lats)
     \<and> (\<forall>l \<in> insert ?lo (set lats). sint (fst (snd (latency_loop lats (sm + lat, ?lo, ?hi)))) \<le> sint l)"
    by (rule Cons.IH)
  then have "sint (fst (snd (latency_loop lats (sm + lat, ?lo, ?hi)))) \<le> sint ?lo"
    by blast
  then have "sint (fst (snd (latency_loop lats (sm + lat, ?lo, ?hi)))) \<le> sint lat"
      "sint (fst (snd (latency_loop lats (sm + lat, ?lo, ?hi)))) \<le> sint lo"
    by (auto split: if_splits)
  with IH show ?case by (auto split: if_splits)
qed

lemma latency_loop_max:
  "snd (snd (latency_loop lats (sm, lo, hi))) \<in> insert hi (set lats)
   \<and> (\<forall>l \<in> insert hi (set lats). sint l \<le> sint (snd (snd (latency_loop lats (sm, lo, hi)))))"
proof (induction lats arbitrary: sm lo hi)
  case Nil
  show ?case by simp
next
  case (Cons lat lats)
  let ?lo = "if sint lat < sint lo then lat else lo"
  let ?hi = "if sint lat > sint hi then lat else hi"
  have IH: "snd (snd (latency_loop lats (sm + lat, ?lo, ?hi))) \<in> insert ?hi (set lats)
     \<and> (\<forall>l \<in> insert ?hi (set lats). sint l \<le> sint (snd (snd (latency_loop lats (sm + lat, ?lo, ?hi)))))"
    by (rule Cons.IH)
  then have "sint ?hi \<le> sint (snd (snd (latency_loop lats (sm + lat, ?lo, ?hi))))"
    by blast
  then have "sint lat \<le> sint (snd (snd (latency_loop lats (sm + lat, ?lo, ?hi))))"
      "sint hi \<le> sint (snd (snd (latency_loop lats (sm + lat, ?lo, ?hi))))"
    by (auto split: if_splits)
  with IH show ?case by (auto split: if_splits)
qed

lemma calculateResult_fields [simp]:
  "Method (calculateResult name totalTime lats succ fails totalRequests) = name"
  "TotalTime (calculateResult name totalTime lats succ fails totalRequests) = totalTime"
  "Requests (calculateResult name totalTime lats succ fails totalRequests) = totalRequests"
  "Successes (calculateResult name totalTime lats succ fails totalRequests) = succ"
  "Failures (calculateResult name totalTime lats succ fails totalRequests) = fails"
  by (simp_all add: calculateResult_def split: list.split prod.split)

lemma calculateResult_Throughput:
  "lats \<noteq> [] \<Longrightarrow>
     Throughput (calculateResult name totalTime lats succ fails totalRequests) =
       float64_div (real_of_int succ) (Seconds totalTime)"
  by (simp add: calculateResult_def split: list.split prod.split)


lemma calculateResult_AvgLatency:
  "lats \<noteq> [] \<Longrightarrow>
     AvgLatency (calculateResult name totalTime lats succ fails totalRequests) =
       int64_div (sum_list lats) (word_of_nat (length lats))"
proof -
  assume "lats \<noteq> []"
  then obtain first rest where lats: "lats = first # rest" by (cases lats) auto
  obtain sm lo hi where loop: "latency_loop lats (0, first, first) = (sm, lo, hi)"
    by (cases "latency_loop lats (0, first, first)") auto
  have "sm = sum_list lats"
    using latency_loop_sum [of lats 0 first first] loop by simp
  then show ?thesis
    using loop unfolding lats by (simp add: calculateResult_def)
qed

lemma calculateResult_MinLatency:
  assumes "lats \<noteq> []"
  shows "MinLatency (calculateResult name totalTime lats succ fails totalRequests) \<in> set lats"
    and "\<forall>l \<in> set lats. sint (MinLatency (calculateResult name totalTime lats succ fails totalRequests)) \<le> sint l"
proof -
  from assms obtain first rest where lats: "lats = first # rest" by (cases lats) auto
  obtain sm lo hi where loop: "latency_loop lats (0, first, first) = (sm, lo, hi)"
    by (cases "latency_loop lats (0, first, first)") auto
  have lo: "MinLatency (calculateResult name totalTime lats succ fails totalRequests) = lo"
    using loop unfolding lats by (simp add: calculateResult_def)
  have first: "insert first (set lats) = set lats"
    unfolding lats by auto
  have "lo \<in> insert first (set lats) \<and> (\<forall>l \<in> insert first (set lats). sint lo \<le> sint l)"
    using latency_loop_min [of lats 0 first first] loop by simp
  then show "MinLatency (calculateResult name totalTime lats succ fails totalRequests) \<in> set lats"
    and "\<forall>l \<in> set lats. sint (MinLatency (calculateResult name totalTime lats succ fails totalRequests)) \<le> sint l"
    unfolding lo first by simp_all
qed

lemma calculateResult_MaxLatency:
  assumes "lats \<noteq> []"
  shows "MaxLatency (calculateResult name totalTime lats succ fails totalRequests) \<in> set lats"
    and "\<forall>l \<in> set lats. sint l \<le> sint (MaxLatency (calculateResult name totalTime lats succ fails totalRequests))"
proof -
  from assms obtain first rest where lats: "lats = first # rest" by (cases lats) auto
  obtain sm lo hi where loop: "latency_loop lats (0, first, first) = (sm, lo, hi)"
    by (cases "latency_loop lats (0, first, first)") auto
  have hi: "MaxLatency (calculateResult name totalTime lats succ fails totalRequests) = hi"
    using loop unfolding lats by (simp add: calculateResult_def)
  have first: "insert first (set lats) = set lats"
    unfolding lats by auto
  have "hi \<in> insert first (set lats) \<and> (\<forall>l \<in> insert first (set lats). sint l \<le> sint hi)"
    using latency_loop_max [of lats 0 first first] loop by simp
  then show "MaxLatency (calculateResult name totalTime lats succ fails totalRequests) \<in> set lats"
    and "\<forall>l \<in> set lats. sint l \<le> sint (MaxLatency (calculateResult name totalTime lats succ fails totalRequests))"
    unfolding hi first by simp_all
qed

text \<open>
  When the sum of the latencies fits in 64 bits, the wrapped sum is the sum, and
  truncated division of a sum by the number of summands stays between the bounds of
  the summands.
\<close>

lemma word_of_int_sum_list_sint:
  "word_of_int (sum_list (map sint lats)) = (sum_list lats :: 64 word)"
  by (induction lats) simp_all

lemma sint_sum_list:
  assumes "- (2 ^ 63) \<le> sum_list (map sint lats)" "sum_list (map sint lats) < 2 ^ 63"
  shows "sint (sum_list lats :: 64 word) = sum_list (map sint lats)"
proof -
  have "sint (word_of_int (sum_list (map sint lats)) :: 64 word) = sum_list (map sint lats)"
    using assms by (simp add: sint_sbintrunc' signed_take_bit_int_eq_self)
  then show ?thesis by (simp add: word_of_int_sum_list_sint)
qed

lemma sint_of_nat_length:
  assumes "n < 2 ^ 63"
  shows "sint (word_of_nat n :: 64 word) = int n"
proof -
  have "int n < 2 ^ 63"
    using assms by (metis of_nat_less_iff of_nat_numeral of_nat_power)
  then have "signed_take_bit (LENGTH(64) - 1) (int n) = int n"
    by (simp add: signed_take_bit_int_eq_self)
  then have "sint (word_of_int (int n) :: 64 word) = int n"
    by (simp only: sint_sbintrunc')
  then show ?thesis by (simp only: of_int_of_nat_eq)
qed

lemma sum_list_lower: "\<forall>x \<in> set xs. lo \<le> x \<Longrightarrow> int (length xs) * lo \<le> sum_list xs"
  by (induction xs) (auto simp: algebra_simps)

lemma sum_list_upper: "\<forall>x \<in> set xs. x \<le> hi \<Longrightarrow> sum_list xs \<le> int (length xs) * (hi::int)"
  by (induction xs) (auto simp: algebra_simps)

lemma sdiv_between:
  fixes s n lo hi :: int
  assumes "0 < n" "n * lo \<le> s" "s \<le> n * hi"
  shows "lo \<le> s sdiv n \<and> s sdiv n \<le> hi"
proof (cases "0 \<le> s")
  case True
  then have eq: "s sdiv n = s div n"
    using assms(1) by (simp add: signed_divide_int_def sgn_if)
  have "lo \<le> s div n"
    using assms(1,2) by (metis zdiv_mono1 nonzero_mult_div_cancel_left less_irrefl)
  moreover have "s div n \<le> hi"
    using assms(1,3) by (metis zdiv_mono1 nonzero_mult_div_cancel_left less_irrefl)
  ultimately show ?thesis using eq by simp
next
  case False
  then have eq: "s sdiv n = - ((- s) div n)"
    using assms(1) by (simp add: signed_divide_int_def sgn_if)
  have "(- s) div n \<le> - lo"
  proof -
    have "- s \<le> n * (- lo)" using assms(2) by simp
    then have "(- s) div n \<le> (n * (- lo)) div n" using assms(1) by (rule zdiv_mono1)
    moreover have "(n * (- lo)) div n = - lo"
      using assms(1) by (intro nonzero_mult_div_cancel_left) simp
    ultimately show ?thesis by simp
  qed
  moreover have "- hi \<le> (- s) div n"
  proof -
    have "n * (- hi) \<le> - s" using assms(3) by simp
    then have "(n * (- hi)) div n \<le> (- s) div n" using assms(1) by (rule zdiv_mono1)
    moreover have "(n * (- hi)) div n = - hi"
      using assms(1) by (intro nonzero_mult_div_cancel_left) simp
    ultimately show ?thesis by simp
  qed
  ultimately show ?thesis using eq by simp
qed

lemma sdiv_towards_zero:
  fixes s n :: int
  assumes "0 < n"
  shows "min s 0 \<le> s sdiv n \<and> s sdiv n \<le> max s 0"
proof (cases "0 \<le> s")
  case True
  from assms have "1 * s \<le> n * s"
    using True by (intro mult_right_mono) auto
  then show ?thesis
    using True assms sdiv_between [of n 0 s s] by simp
next
  case False
  from assms have "n * s \<le> 1 * s"
    using False by (intro mult_right_mono_neg) auto
  then show ?thesis
    using False assms sdiv_between [of n s s 0] by simp
qed

lemma sint_int64_div_length:
  assumes "0 < n" "n < 2 ^ 63"
  shows "sint (int64_div a (word_of_nat n)) = sint a sdiv int n"
proof -
  have "- (2 ^ 63) \<le> sint a" "sint a < 2 ^ 63"
    using sint_ge [of a] sint_lt [of a] by simp_all
  moreover have "min (sint a) 0 \<le> sint a sdiv int n \<and> sint a sdiv int n \<le> max (sint a) 0"
    using assms(1) by (intro sdiv_towards_zero) simp
  ultimately have range: "- (2 ^ 63) \<le> sint a sdiv int n" "sint a sdiv int n < 2 ^ 63"
    by linarith+
  have "int64_div a (word_of_nat n) = word_of_int (sint a sdiv int n)"
    using sint_of_nat_length [OF assms(2)] by (simp add: int64_div_def)
  then have "sint (int64_div a (word_of_nat n)) = signed_take_bit (LENGTH(64) - 1) (sint a sdiv int n)"
    by (simp only: sint_sbintrunc')
  also have "\<dots> = sint a sdiv int n"
    using range by (simp add: signed_take_bit_int_eq_self)
  finally show ?thesis .
qed

lemma sint_mean:
  assumes "lats \<noteq> []" "length lats < 2 ^ 63"
    and "- (2 ^ 63) \<le> sum_list (map sint lats)" "sum_list (map sint lats) < 2 ^ 63"
  shows "sint (int64_div (sum_list lats) (word_of_nat (length lats))) =
           sum_list (map sint lats) sdiv int (length lats)"
  using assms sint_int64_div_length [of "length lats" "sum_list lats"] sint_sum_list [of lats]
  by simp


section \<open>Properties of the benchmarks\<close>

text \<open>
  A benchmark returns a result exactly when \<^verbatim>\<open>totalRequests\<close> is not negative and
  \<^verbatim>\<open>concurrency\<close> is not zero. Each of the three benchmarks is the shared body at its
  method name and path.
\<close>

lemma benchmark_returns:
  assumes "0 \<le> totalRequests" "concurrency \<noteq> 0"
  shows "benchmark name path net sched totalTime brokerURL totalRequests concurrency =
     Inr (calculateResult name totalTime
            (latencies (run_workers (net (brokerURL @ path))
               (nat (totalRequests sdiv concurrency)) (nat concurrency) sched))
            (successes (run_workers (net (brokerURL @ path))
               (nat (totalRequests sdiv concurrency)) (nat concurrency) sched))
            (failures (run_workers (net (brokerURL @ path))
               (nat (totalRequests sdiv concurrency)) (nat concurrency) sched))
            totalRequests)"
  using assms by (simp add: benchmark_def Let_def)

lemma benchmark_Inr_iff:
  "(\<exists>r. benchmark name path net sched totalTime brokerURL totalRequests concurrency = Inr r)
     \<longleftrightarrow> 0 \<le> totalRequests \<and> concurrency \<noteq> 0"
  by (auto simp: benchmark_def Let_def)

lemma entry_points_cases:
  assumes "(bench, path) \<in> {(benchmarkHTTP, ''/log-http''), (benchmarkRabbitMQ, ''/log-rabbit''),
                            (benchmarkGRPC, ''/log-grpc'')}"
  obtains name where "bench = benchmark name path"
  using assms by (auto simp: benchmarkHTTP_def benchmarkRabbitMQ_def benchmarkGRPC_def)








text \<open>
  C7. Every attempt other than a response with status 202 and no error (an error
  building the request, a transport error, a nil response, any other status) only
  increments \<^verbatim>\<open>failures\<close>: it adds no success and no latency sample. Hence in the
  result of each of the three benchmarks \<^verbatim>\<open>Successes\<close> is the number of iterations
  that got status 202 without error and \<^verbatim>\<open>Failures\<close> the number of all the others.
\<close>

theorem only_status_accepted_counts_as_success:
  assumes "(bench, path) \<in> {(benchmarkHTTP, ''/log-http''), (benchmarkRabbitMQ, ''/log-rabbit''),
                            (benchmarkGRPC, ''/log-grpc'')}"
    and "bench net sched totalTime brokerURL totalRequests concurrency = Inr r"
  shows "(\<forall>a c. (\<forall>l. a \<noteq> RoundTrip (Some (Response 202)) None l) \<longrightarrow>
                  tally a c = c\<lparr>failures := failures c + 1\<rparr>)
       \<and> Successes r = int (length (filter
             (\<lambda>(w, j). \<exists>l. net (brokerURL @ path) w j = RoundTrip (Some (Response 202)) None l)
             (all_calls (nat concurrency) (nat (totalRequests sdiv concurrency)))))
       \<and> Failures r = int (length (filter
             (\<lambda>(w, j). \<forall>l. net (brokerURL @ path) w j \<noteq> RoundTrip (Some (Response 202)) None l)
             (all_calls (nat concurrency) (nat (totalRequests sdiv concurrency)))))"
proof -
  from assms(1) obtain name where bench: "bench = benchmark name path"
    by (rule entry_points_cases)
  have args: "0 \<le> totalRequests" "concurrency \<noteq> 0"
    using assms(2) benchmark_Inr_iff [of name path net sched totalTime brokerURL totalRequests concurrency]
    unfolding bench by blast+
  define c where "c = run_workers (net (brokerURL @ path))
      (nat (totalRequests sdiv concurrency)) (nat concurrency) sched"
  have r: "r = calculateResult name totalTime (latencies c) (successes c) (failures c) totalRequests"
    using assms(2) benchmark_returns [OF args, of name path net sched totalTime brokerURL]
    unfolding bench c_def by simp
  let ?call = "net (brokerURL @ path)"
  let ?all = "all_calls (nat concurrency) (nat (totalRequests sdiv concurrency))"
  have acc: "(\<lambda>(w, j). sample (?call w j) \<noteq> None) =
      (\<lambda>(w, j). \<exists>l. ?call w j = RoundTrip (Some (Response 202)) None l)"
    by (simp add: sample_None_iff)
  have rej: "(\<lambda>(w, j). sample (?call w j) = None) =
      (\<lambda>(w, j). \<forall>l. ?call w j \<noteq> RoundTrip (Some (Response 202)) None l)"
    by (simp add: sample_None_iff)
  have "Successes r = int (length (samples ?call ?all))"
    unfolding r c_def by (simp add: run_workers_successes_count)
  then have s: "Successes r = int (length (filter
             (\<lambda>(w, j). \<exists>l. ?call w j = RoundTrip (Some (Response 202)) None l) ?all))"
    by (simp only: length_samples_filter acc)
  have "Failures r = int (length (rejected ?call ?all))"
    unfolding r c_def by (simp add: run_workers_failures_count)
  then have f: "Failures r = int (length (filter
             (\<lambda>(w, j). \<forall>l. ?call w j \<noteq> RoundTrip (Some (Response 202)) None l) ?all))"
    by (simp only: rejected_def rej)
  show ?thesis using s f tally_rejects by blast
qed

theorem only_status_accepted_counts_as_success_witness:
  "benchmarkRabbitMQ
     (\<lambda>url w j. if w = 0 then RoundTrip (Some (Response 200)) None 2000000
                 else RoundTrip (Some (Response 202)) None 3000000)
     [] 2000000000 ''http://broker-service'' 6 2
   = Inr \<lparr>Method = ''RabbitMQ'', TotalTime = 2000000000, Requests = 6, Successes = 3, Failures = 3,
          AvgLatency = 3000000, MinLatency = 3000000, MaxLatency = 3000000,
          Throughput = Finite (3 / 2)\<rparr>
   \<and> tally (RoundTrip (Some (Response 200)) None 2000000)
        \<lparr>latencies = [], successes = 0, failures = 0\<rparr>
      = \<lparr>latencies = [], successes = 0, failures = 1\<rparr>"
proof -
  let ?net = "\<lambda>(url::string) (w::nat) (j::nat).
      if w = 0 then RoundTrip (Some (Response 200)) None 2000000
      else RoundTrip (Some (Response 202)) None 3000000"
  let ?r = "\<lparr>Method = ''RabbitMQ'', TotalTime = 2000000000, Requests = 6, Successes = 3, Failures = 3,
          AvgLatency = 3000000, MinLatency = 3000000, MaxLatency = 3000000,
          Throughput = Finite (3 / 2)\<rparr>"
  have run: "benchmarkRabbitMQ ?net [] 2000000000 ''http://broker-service'' 6 2 = Inr ?r"
    by code_simp
  have entry: "(benchmarkRabbitMQ, ''/log-rabbit'') \<in>
      {(benchmarkHTTP, ''/log-http''), (benchmarkRabbitMQ, ''/log-rabbit''), (benchmarkGRPC, ''/log-grpc'')}"
    by simp
  have "\<forall>a c. (\<forall>l. a \<noteq> RoundTrip (Some (Response 202)) None l) \<longrightarrow>
      tally a c = c\<lparr>failures := failures c + 1\<rparr>"
    using only_status_accepted_counts_as_success [OF entry run] by blast
  then have "tally (RoundTrip (Some (Response 200)) None 2000000)
        \<lparr>latencies = [], successes = 0, failures = 0\<rparr>
      = \<lparr>latencies = [], successes = 0, failures = 0\<rparr>\<lparr>failures := failures \<lparr>latencies = [], successes = 0, failures = 0\<rparr> + 1\<rparr>"
    by (simp add: StatusAccepted_def)
  then show ?thesis using run by simp
qed




text \<open>
  C10, as the code has it. For a non-empty list of latencies whose sum fits in an
  \<^verbatim>\<open>int64\<close> (and whose length does, as the length of every Go slice),
  \<^verbatim>\<open>calculateResult\<close> gives \<open>MinLatency \<le> AvgLatency \<le> MaxLatency\<close>.
\<close>

theorem latency_statistics_ordered:
  assumes "lats \<noteq> []" and "length lats < 2 ^ 63"
    and "- (2 ^ 63) \<le> sum_list (map sint lats)" and "sum_list (map sint lats) < 2 ^ 63"
    and "r = calculateResult name totalTime lats succ fails totalRequests"
  shows "sint (MinLatency r) \<le> sint (AvgLatency r) \<and> sint (AvgLatency r) \<le> sint (MaxLatency r)"
proof -
  let ?n = "int (length lats)"
  let ?s = "sum_list (map sint lats)"
  have n: "0 < ?n" using assms(1) by simp
  have lo: "\<forall>x \<in> set (map sint lats). sint (MinLatency r) \<le> x"
    unfolding assms(5) using calculateResult_MinLatency(2) [OF assms(1)] by simp
  have hi: "\<forall>x \<in> set (map sint lats). x \<le> sint (MaxLatency r)"
    unfolding assms(5) using calculateResult_MaxLatency(2) [OF assms(1)] by simp
  have "?n * sint (MinLatency r) \<le> ?s"
    using sum_list_lower [OF lo] by simp
  moreover have "?s \<le> ?n * sint (MaxLatency r)"
    using sum_list_upper [OF hi] by simp
  ultimately have between: "sint (MinLatency r) \<le> ?s sdiv ?n \<and> ?s sdiv ?n \<le> sint (MaxLatency r)"
    using n by (intro sdiv_between) auto
  have "AvgLatency r = int64_div (sum_list lats) (word_of_nat (length lats))"
    unfolding assms(5) using assms(1) by (rule calculateResult_AvgLatency)
  then have "sint (AvgLatency r) = ?s sdiv ?n"
    using sint_mean [OF assms(1-4)] by simp
  then show ?thesis using between by simp
qed

theorem latency_statistics_ordered_witness:
  "sint (MinLatency (calculateResult ''HTTP'' 9000000 [3000000, 1000000, 4000001] 3 0 3)) = 1000000
   \<and> sint (AvgLatency (calculateResult ''HTTP'' 9000000 [3000000, 1000000, 4000001] 3 0 3)) = 2666667
   \<and> sint (MaxLatency (calculateResult ''HTTP'' 9000000 [3000000, 1000000, 4000001] 3 0 3)) = 4000001"
  using latency_statistics_ordered [of "[3000000, 1000000, 4000001]"
      "calculateResult ''HTTP'' 9000000 [3000000, 1000000, 4000001] 3 0 3" "''HTTP''" 9000000 3 0 3]
  by (simp add: calculateResult_def int64_div_def signed_divide_int_def)

text \<open>
  C10 for every non-empty list fails: the sum of line 289 wraps. With two latencies
  of \<open>2\<^sup>6\<^sup>2\<close> nanoseconds the sum is \<open>- 2\<^sup>6\<^sup>3\<close>, the average \<open>- 2\<^sup>6\<^sup>2\<close>, below the
  minimum.
\<close>

theorem latency_sum_overflow_counterexample:
  "sint (AvgLatency (calculateResult ''HTTP'' 1
           [0x4000000000000000, 0x4000000000000000] 2 0 2)) = - 4611686018427387904
   \<and> sint (MinLatency (calculateResult ''HTTP'' 1
           [0x4000000000000000, 0x4000000000000000] 2 0 2)) = 4611686018427387904
   \<and> \<not> sint (MinLatency (calculateResult ''HTTP'' 1
           [0x4000000000000000, 0x4000000000000000] 2 0 2))
       \<le> sint (AvgLatency (calculateResult ''HTTP'' 1
           [0x4000000000000000, 0x4000000000000000] 2 0 2))"
  by (simp add: calculateResult_def int64_div_def signed_divide_int_def)

section \<open>Properties of the report and of the command line\<close>

text \<open>
  C6, as the code has it. For a result without successes, \<^verbatim>\<open>printSummary\<close> prints
  one row whose average-latency and throughput columns are the string \<^verbatim>\<open>N/A\<close>, and
  \<^verbatim>\<open>printResult\<close> prints the total time and the three counts and nothing else: no
  line for the average, minimum or maximum latency or the throughput. So no latency
  or throughput value, zero or other, is printed.
\<close>

theorem zero_successes_report:
  assumes "Successes r = 0"
  shows "printSummary r =
           [(''%-15s %12s %10s %11d %11d\<newline>'',
             [StrArg (Method r), StrArg ''N/A'', StrArg ''N/A'', IntArg 0, IntArg (Failures r)])]
       \<and> printResult r =
           [(''Total Time:     %v\<newline>'', [DurationArg (TotalTime r)]),
            (''Requests:       %d\<newline>'', [IntArg (Requests r)]),
            (''Successes:      %d\<newline>'', [IntArg 0]),
            (''Failures:       %d\<newline>'', [IntArg (Failures r)])]"
  using assms by (simp add: printSummary_def printResult_def)

theorem zero_successes_report_witness:
  "Successes (calculateResult ''gRPC'' 5000000 [] 0 100 100) = 0
   \<and> printSummary (calculateResult ''gRPC'' 5000000 [] 0 100 100) =
           [(''%-15s %12s %10s %11d %11d\<newline>'',
             [StrArg ''gRPC'', StrArg ''N/A'', StrArg ''N/A'', IntArg 0, IntArg 100])]"
  using zero_successes_report [of "calculateResult ''gRPC'' 5000000 [] 0 100 100"]
  by simp

text \<open>
  C6 as the specification words it fails for the minimum and maximum latency (and,
  in the report of \<^verbatim>\<open>printResult\<close>, for all four statistics): they are left out, not
  marked. For a result without successes \<^verbatim>\<open>printResult\<close> prints four lines, none with
  an \<^verbatim>\<open>N/A\<close> operand, and the summary row has the marker twice, for the average latency
  and the throughput only.
\<close>

theorem zero_successes_min_max_counterexample:
  "map fst (printResult (calculateResult ''HTTP'' 5000000 [] 0 100 100)) =
     [''Total Time:     %v\<newline>'', ''Requests:       %d\<newline>'',
      ''Successes:      %d\<newline>'', ''Failures:       %d\<newline>'']
   \<and> StrArg ''N/A'' \<notin> set (concat (map snd (printResult (calculateResult ''HTTP'' 5000000 [] 0 100 100))))
   \<and> concat (map snd (printSummary (calculateResult ''HTTP'' 5000000 [] 0 100 100))) =
       [StrArg ''HTTP'', StrArg ''N/A'', StrArg ''N/A'', IntArg 0, IntArg 100]"
  by (simp add: printResult_def printSummary_def)

text \<open>
  C8, as the code has it. A parameter whose argument is omitted takes its default: the
  broker URL \<^verbatim>\<open>http://broker-service\<close>, 100 requests, a concurrency of 10. A broker
  URL that is given replaces the default. A request count or a concurrency that is
  given replaces the default by the integer that \<^verbatim>\<open>Sscanf\<close> scans from it; when
  \<^verbatim>\<open>Sscanf\<close> scans none, the default stays. Each parameter is set from its own position
  only: changing the argument at any other position leaves it as it is.
\<close>

theorem main_args_defaults_and_overrides:
  "(length Args \<le> 1 \<longrightarrow> main_brokerURL (main_args Sscanf_d Args) = ''http://broker-service'')
   \<and> (length Args \<le> 2 \<longrightarrow> main_requests (main_args Sscanf_d Args) = 100)
   \<and> (length Args \<le> 3 \<longrightarrow> main_concurrency (main_args Sscanf_d Args) = 10)
   \<and> (1 < length Args \<longrightarrow> main_brokerURL (main_args Sscanf_d Args) = Args ! 1)
   \<and> (2 < length Args \<and> Sscanf_d (Args ! 2) = Some n \<longrightarrow>
        main_requests (main_args Sscanf_d Args) = n)
   \<and> (3 < length Args \<and> Sscanf_d (Args ! 3) = Some c \<longrightarrow>
        main_concurrency (main_args Sscanf_d Args) = c)
   \<and> (2 < length Args \<and> Sscanf_d (Args ! 2) = None \<longrightarrow>
        main_requests (main_args Sscanf_d Args) = 100)
   \<and> (3 < length Args \<and> Sscanf_d (Args ! 3) = None \<longrightarrow>
        main_concurrency (main_args Sscanf_d Args) = 10)
   \<and> (i \<noteq> 1 \<longrightarrow>
        main_brokerURL (main_args Sscanf_d (Args[i := a])) = main_brokerURL (main_args Sscanf_d Args))
   \<and> (i \<noteq> 2 \<longrightarrow>
        main_requests (main_args Sscanf_d (Args[i := a])) = main_requests (main_args Sscanf_d Args))
   \<and> (i \<noteq> 3 \<longrightarrow>
        main_concurrency (main_args Sscanf_d (Args[i := a])) = main_concurrency (main_args Sscanf_d Args))"
  by (simp add: main_args_def)

theorem main_args_defaults_and_overrides_witness:
  "main_args (\<lambda>s. if s = ''500'' then Some 500 else None)
       [''benchmark'', ''http://localhost:8080'', ''500'']
     = \<lparr>main_brokerURL = ''http://localhost:8080'', main_requests = 500, main_concurrency = 10\<rparr>"
  using main_args_defaults_and_overrides
    [of "[''benchmark'', ''http://localhost:8080'', ''500'']"
        "\<lambda>s. if s = ''500'' then Some 500 else None" 500 0 0 "[]"]
  by (simp add: main_args_def)

text \<open>
  C8 for every supplied argument fails: \<^verbatim>\<open>Sscanf\<close> scans no integer from the argument
  \<^verbatim>\<open>abc\<close>, \<^verbatim>\<open>main\<close> ignores the error, and the request count given as \<^verbatim>\<open>abc\<close> does not
  replace the default: the benchmarks run with 100 requests.
\<close>

theorem main_args_unscanned_argument_counterexample:
  "main_args (\<lambda>s. if s = ''500'' then Some 500 else None)
       [''benchmark'', ''http://localhost:8080'', ''abc'']
     = \<lparr>main_brokerURL = ''http://localhost:8080'', main_requests = 100, main_concurrency = 10\<rparr>"
  by (simp add: main_args_def)

end
